theory Spec2Isabelle
  imports Complex_Main
begin

section \<open>The focusing aid of examples/focus-gui.py\<close>

text \<open>
  The program grabs preview frames from a camera, publishes each frame together with a
  histogram picture, a clipping count and a focus measurement, and either does so once
  (\<open>one_shot\<close>) or keeps going until told to stop (\<open>continuous\<close>).

  Python's \<open>float\<close> is modelled by \<open>real\<close>, Python's unbounded \<open>int\<close> by \<open>nat\<close> or
  \<open>int\<close>. A Python exception is a value of type \<open>error\<close>.
\<close>

datatype error = GPhoto2Error int | IOError | ValueError | IndexError | ZeroDivisionError

subsection \<open>Frames and the image library\<close>

text \<open>
  A decoded frame in mode RGB: its size and its raster, one list of pixels per row, each
  pixel holding the three channel values. Frames of another mode are outside the model.
\<close>

type_synonym pixel = "nat \<times> nat \<times> nat"

record image =
  width :: nat
  height :: nat
  raster :: "pixel list list"

fun band :: "nat \<Rightarrow> pixel \<Rightarrow> nat" where
  "band c (r, g, b) = (if c = 0 then r else if c = 1 then g else b)"

definition valid_rgb :: "image \<Rightarrow> bool" where
  "valid_rgb im \<longleftrightarrow>
     length (raster im) = height im \<and>
     list_all (\<lambda>row. length row = width im \<and>
                 list_all (\<lambda>(r, g, b). r < 256 \<and> g < 256 \<and> b < 256) row) (raster im)"

definition getpixel :: "image \<Rightarrow> nat \<Rightarrow> nat \<Rightarrow> pixel" where
  "getpixel im x y = raster im ! y ! x"

definition new_image :: "nat \<Rightarrow> nat \<Rightarrow> (nat \<Rightarrow> nat \<Rightarrow> pixel) \<Rightarrow> image" where
  "new_image w h f =
     \<lparr>width = w, height = h, raster = map (\<lambda>y. map (\<lambda>x. f x y) [0..<w]) [0..<h]\<rparr>"

text \<open>\<open>image.tobytes('raw', 'RGB')\<close>: the channel values, pixel after pixel, row after row.\<close>

definition tobytes :: "image \<Rightarrow> nat list" where
  "tobytes im = concat (map (\<lambda>(r, g, b). [r, g, b]) (concat (raster im)))"

text \<open>
  Modelled from the spec: the image library's pixel shift (\<open>ImageChops.offset\<close>), which
  is not part of this repository. The result has the size of its argument; the data
  wraps around the edges.
\<close>

definition offset :: "image \<Rightarrow> int \<Rightarrow> int \<Rightarrow> image" where
  "offset im xoffset yoffset =
     new_image (width im) (height im)
       (\<lambda>x y. getpixel im (nat ((int x - xoffset) mod int (width im)))
                          (nat ((int y - yoffset) mod int (height im))))"

text \<open>
  Modelled from the spec: the image library's \<open>ImageChops.difference\<close>, the absolute
  value of the difference of two images, pixel by pixel and channel by channel.
\<close>

definition absdiff :: "nat \<Rightarrow> nat \<Rightarrow> nat" where
  "absdiff a b = nat \<bar>int a - int b\<bar>"

fun pixel_difference :: "pixel \<Rightarrow> pixel \<Rightarrow> pixel" where
  "pixel_difference (r1, g1, b1) (r2, g2, b2) = (absdiff r1 r2, absdiff g1 g2, absdiff b1 b2)"

definition difference :: "image \<Rightarrow> image \<Rightarrow> image" where
  "difference im1 im2 =
     new_image (min (width im1) (width im2)) (min (height im1) (height im2))
       (\<lambda>x y. pixel_difference (getpixel im1 x y) (getpixel im2 x y))"

text \<open>
  Modelled from the spec: the image library's \<open>Image.crop\<close> with the box
  \<open>(left, upper, right, lower)\<close>; what lies outside the image is black.
\<close>

definition crop :: "image \<Rightarrow> nat \<times> nat \<times> nat \<times> nat \<Rightarrow> image" where
  "crop im box =
     (case box of (left, upper, right, lower) \<Rightarrow>
        new_image (right - left) (lower - upper)
          (\<lambda>x y. if x + left < width im \<and> y + upper < height im
                  then getpixel im (x + left) (y + upper) else (0, 0, 0)))"

text \<open>
  Modelled from the spec: the image library's \<open>Image.histogram\<close>. For each channel, 256
  counts, one per pixel value; the histograms of the three channels are concatenated.
\<close>

definition histogram :: "image \<Rightarrow> nat list" where
  "histogram im =
     concat (map (\<lambda>c. map (\<lambda>v. length (filter (\<lambda>p. band c p = v) (concat (raster im))))
                           [0..<256])
                 [0..<3])"

text \<open>
  Modelled from the spec: the image library's \<open>ImageStat.Stat\<close>, which works on the
  histogram \<open>h\<close> of its argument. Channel \<open>i\<close> owns the 256 entries from \<open>256 * i\<close> on;
  \<open>count\<close> adds them up, \<open>sum2\<close> adds up \<open>j\<^sup>2 * h[256 * i + j]\<close>, and \<open>rms\<close> is
  \<open>sqrt (sum2 / count)\<close>, a division that raises when the count is zero.
\<close>

definition stat_bands :: "nat list \<Rightarrow> nat list" where
  "stat_bands h = [0..<length h div 256]"

definition stat_count :: "nat list \<Rightarrow> nat \<Rightarrow> nat" where
  "stat_count h i = sum_list (take 256 (drop (256 * i) h))"

definition stat_sum2 :: "nat list \<Rightarrow> nat \<Rightarrow> real" where
  "stat_sum2 h i = (\<Sum>j\<leftarrow>[0..<256]. real (j ^ 2) * real (h ! (256 * i + j)))"

fun sequence :: "(error + 'a) list \<Rightarrow> error + 'a list" where
  "sequence [] = Inr []"
| "sequence (Inl e # rs) = Inl e"
| "sequence (Inr v # rs) = (case sequence rs of Inl e \<Rightarrow> Inl e | Inr vs \<Rightarrow> Inr (v # vs))"

definition stat_rms :: "nat list \<Rightarrow> error + real list" where
  "stat_rms h =
     sequence (map (\<lambda>i. if stat_count h i = 0 then Inl ZeroDivisionError
                         else Inr (sqrt (stat_sum2 h i / real (stat_count h i))))
                   (stat_bands h))"

subsection \<open>The focus measurement (lines 147 to 157 of \<open>_do_capture\<close>)\<close>

definition measure_focus :: "image \<Rightarrow> error + real list" where
  "measure_focus img =
     (let w = width img; h = height img;
          shifted = offset img 1 0;
          diff = crop (difference img shifted) (1, 0, w, h)
      in case stat_rms (histogram diff) of
           Inl e \<Rightarrow> Inl e
         | Inr h_rms \<Rightarrow>
             (let shifted = offset img 0 1;
                  diff = crop (difference img shifted) (0, 1, w, h)
              in case stat_rms (histogram diff) of
                   Inl e \<Rightarrow> Inl e
                 | Inr rms \<Rightarrow>
                     if length h_rms < length rms then Inl IndexError
                     else Inr (map (\<lambda>n. rms ! n + h_rms ! n) [0..<length rms])))"

text \<open>
  What the measurement is meant to be, written directly on the pixels: the root mean
  square, over the positions where a pixel has a left (upper) neighbour, of the absolute
  difference between the pixel and that neighbour, for channel \<open>c\<close>.
\<close>

definition rms_horizontal :: "image \<Rightarrow> nat \<Rightarrow> real" where
  "rms_horizontal im c =
     sqrt ((\<Sum>y\<leftarrow>[0..<height im]. \<Sum>x\<leftarrow>[1..<width im].
              (real (absdiff (band c (getpixel im x y)) (band c (getpixel im (x - 1) y))))\<^sup>2)
           / real ((width im - 1) * height im))"

definition rms_vertical :: "image \<Rightarrow> nat \<Rightarrow> real" where
  "rms_vertical im c =
     sqrt ((\<Sum>y\<leftarrow>[1..<height im]. \<Sum>x\<leftarrow>[0..<width im].
              (real (absdiff (band c (getpixel im x y)) (band c (getpixel im x (y - 1)))))\<^sup>2)
           / real (width im * (height im - 1)))"

definition focus_score :: "image \<Rightarrow> real list" where
  "focus_score im = map (\<lambda>c. rms_horizontal im c + rms_vertical im c) [0, 1, 2]"

subsection \<open>The histogram picture (lines 129 to 144 of \<open>_do_capture\<close>)\<close>

text \<open>
  Modelled from the spec: the GUI toolkit's image type (\<open>QImage\<close>), which is not part
  of this repository. A picture is its size and its rows of \<open>0xRRGGBB\<close> values.
  \<open>setPixel\<close> takes the column first and the row second, both whole numbers, so the
  \<open>float\<close> the source passes is cut to a whole number (\<open>to_int\<close>); it leaves the picture
  alone when the position is outside of it.
\<close>

record qimage =
  qwidth :: nat
  qheight :: nat
  qrows :: "nat list list"

definition Qt_white :: nat where
  "Qt_white = 0xffffff"

definition filled :: "nat \<Rightarrow> nat \<Rightarrow> nat \<Rightarrow> qimage" where
  "filled w h colour = \<lparr>qwidth = w, qheight = h, qrows = replicate h (replicate w colour)\<rparr>"

definition to_int :: "real \<Rightarrow> int" where
  "to_int r = (if 0 \<le> r then \<lfloor>r\<rfloor> else \<lceil>r\<rceil>)"

definition setPixel :: "qimage \<Rightarrow> int \<Rightarrow> int \<Rightarrow> nat \<Rightarrow> qimage" where
  "setPixel q x y colour =
     (if 0 \<le> x \<and> x < int (qwidth q) \<and> 0 \<le> y \<and> y < int (qheight q)
      then q\<lparr>qrows := (qrows q)[nat y := (qrows q ! nat y)[nat x := colour]]\<rparr>
      else q)"

definition pixel :: "qimage \<Rightarrow> nat \<Rightarrow> nat \<Rightarrow> nat" where
  "pixel q x y = qrows q ! y ! x"

text \<open>Lines 139 and 140: the position computed for a bin holding \<open>count\<close> pixels.\<close>

definition bar :: "real \<Rightarrow> nat \<Rightarrow> real" where
  "bar max_value count =
     (let y = real (1 + count) / max_value
      in 98 * max 0 (1 + log 10 y / 5))"

text \<open>Lines 137 to 142: one channel, drawn in \<open>colour\<close>.\<close>

definition draw_band :: "qimage \<Rightarrow> nat list \<Rightarrow> nat \<Rightarrow> qimage" where
  "draw_band q_image band_hist colour =
     (let max_value = real (1 + Max (set band_hist))
      in foldl (\<lambda>q x. let y = bar max_value (band_hist ! x)
                       in setPixel (setPixel q (to_int y) (int x) colour)
                                   (to_int (y + 1)) (int x) colour)
               q_image [0..<length band_hist])"

text \<open>
  Lines 134 to 144: the loop over the three colours. \<open>max\<close> of an empty slice raises
  \<open>ValueError\<close>.
\<close>

fun band_loop ::
  "nat list \<Rightarrow> qimage \<times> nat list \<times> nat \<Rightarrow> nat list \<Rightarrow> error + qimage \<times> nat list \<times> nat" where
  "band_loop hist st [] = Inr st"
| "band_loop hist (q_image, clipping, start) (colour # colours) =
     (let stop = start + 256;
          band_hist = take (stop - start) (drop start hist)
      in if band_hist = [] then Inl ValueError
         else band_loop hist
                (draw_band q_image band_hist colour, clipping @ [last band_hist], stop)
                colours)"

definition histogram_image :: "nat list \<Rightarrow> error + qimage \<times> nat list" where
  "histogram_image hist =
     (case band_loop hist (filled 100 256 Qt_white, [], 0) [0xff0000, 0x00ff00, 0x0000ff] of
        Inl e \<Rightarrow> Inl e
      | Inr (q_image, clipping, stop) \<Rightarrow> Inr (q_image, clipping))"

text \<open>
  The colour the picture made from the histogram of a frame has at column \<open>p\<close> of row
  \<open>x\<close>; \<open>None\<close> when the loop raises.
\<close>

definition picture_pixel :: "image \<Rightarrow> nat \<Rightarrow> nat \<Rightarrow> nat option" where
  "picture_pixel img p x =
     (case histogram_image (histogram img) of
        Inl e \<Rightarrow> None
      | Inr (q_image, clipping) \<Rightarrow> Some (pixel q_image p x))"

text \<open>
  Names for what the loop computes for the \<open>c\<close>-th colour: its slice of the histogram
  (lines 135 and 136), the position computed for bin \<open>x\<close> (lines 139 and 140), and
  whether column \<open>p\<close> is one of the two columns that lines 141 and 142 colour in row
  \<open>x\<close>.
\<close>

definition band_hist :: "nat list \<Rightarrow> nat \<Rightarrow> nat list" where
  "band_hist hist c = take 256 (drop (256 * c) hist)"

definition bar_length :: "nat list \<Rightarrow> nat \<Rightarrow> nat \<Rightarrow> real" where
  "bar_length hist c x =
     bar (real (1 + Max (set (band_hist hist c)))) (band_hist hist c ! x)"

definition marked :: "nat list \<Rightarrow> nat \<Rightarrow> nat \<Rightarrow> nat \<Rightarrow> bool" where
  "marked hist c x p \<longleftrightarrow>
     to_int (bar_length hist c x) = int p \<or> to_int (bar_length hist c x + 1) = int p"

text \<open>A picture whose rows are all there and as long as the picture is wide.\<close>

definition wf_qimage :: "qimage \<Rightarrow> bool" where
  "wf_qimage q \<longleftrightarrow>
     length (qrows q) = qheight q \<and> list_all (\<lambda>r. length r = qwidth q) (qrows q)"

subsection \<open>The camera and the handler\<close>

text \<open>
  The camera library is outside the repository. Its answers are parameters of the model:
  the result codes of \<open>init\<close>, \<open>get_config\<close> and \<open>set_config\<close>, the configuration tree
  (what \<open>gp_widget_get_child_by_name\<close> returns for each name: a result code and a
  widget), the result of the \<open>n\<close>-th call of \<open>gp_camera_capture_preview\<close> (a result code
  and the file data), and the decoder of the image library (\<open>None\<close> when it raises).
\<close>

record widget =
  wvalue :: string
  choices :: "string list"

definition GP_OK :: int where
  "GP_OK = 0"

definition GP_ERROR_BAD_PARAMETERS :: int where
  "GP_ERROR_BAD_PARAMETERS = - 2"

record env =
  init_rc :: int
  get_config_rc :: int
  tree :: "string \<Rightarrow> int \<times> widget"
  set_config_rc :: int
  preview :: "nat \<Rightarrow> int \<times> nat list"
  decode :: "nat list \<Rightarrow> image option"

text \<open>
  Everything the handler does to the outside is appended to \<open>trace\<close>: the calls of the
  camera library, the lines printed, the four signals with what they carry, and the
  events posted to the handler's own queue.
\<close>

datatype qevent = DoNext | OtherEvent

datatype action =
    CameraInit | GetConfig | Lookup string | SetConfig | CameraExit
  | CapturePreview | Print string | PostEvent
  | NewImage "nat list" nat nat | NewHistogram qimage | NewClipping "nat list"
  | NewFocus "real list"

fun is_signal :: "action \<Rightarrow> bool" where
  "is_signal (NewImage d w h) = True"
| "is_signal (NewHistogram q) = True"
| "is_signal (NewClipping c) = True"
| "is_signal (NewFocus f) = True"
| "is_signal a = False"

text \<open>
  The handler's fields \<open>running\<close>, \<open>config\<close> and \<open>image_data\<close>, and with them the state
  around it: how many previews the camera has been asked for (\<open>shots\<close>), the events
  posted and not yet delivered (\<open>queue\<close>), and the trace.
\<close>

record handler =
  running :: bool
  config :: "string \<Rightarrow> int \<times> widget"
  image_data :: "nat list"
  shots :: nat
  queue :: "qevent list"
  trace :: "action list"

definition say :: "action list \<Rightarrow> handler \<Rightarrow> handler" where
  "say as s = s\<lparr>trace := trace s @ as\<rparr>"

text \<open>\<open>__init__\<close>. The methods of the camera object raise when the library reports an error.\<close>

definition init :: "env \<Rightarrow> error + handler" where
  "init E =
     (if init_rc E < GP_OK then Inl (GPhoto2Error (init_rc E))
      else if get_config_rc E < GP_OK then Inl (GPhoto2Error (get_config_rc E))
      else
        let s = \<lparr>running = False, config = tree E, image_data = [], shots = 0, queue = [],
                 trace = [CameraInit, GetConfig, Lookup ''capturesizeclass'']\<rparr>;
            (OK, capture_size_class) = config s ''capturesizeclass''
        in if OK \<ge> GP_OK then
             (if length (choices capture_size_class) \<le> 2
              then Inl (GPhoto2Error GP_ERROR_BAD_PARAMETERS)
              else
                let v = choices capture_size_class ! 2;
                    s = s\<lparr>config := (config s)
                           (''capturesizeclass'' := (OK, capture_size_class\<lparr>wvalue := v\<rparr>))\<rparr>
                in if set_config_rc E < GP_OK then Inl (GPhoto2Error (set_config_rc E))
                   else Inr (say [SetConfig] s))
           else Inr s)"

text \<open>\<open>value.lower()\<close> and \<open>'raw' in ...\<close> on byte strings.\<close>

definition lower_char :: "char \<Rightarrow> char" where
  "lower_char c =
     (case map_of (zip ''ABCDEFGHIJKLMNOPQRSTUVWXYZ'' ''abcdefghijklmnopqrstuvwxyz'') c of
        Some l \<Rightarrow> l
      | None \<Rightarrow> c)"

definition lower :: "string \<Rightarrow> string" where
  "lower s = map lower_char s"

fun contains :: "string \<Rightarrow> string \<Rightarrow> bool" where
  "contains sub [] = (sub = [])"
| "contains sub (c # cs) = (take (length sub) (c # cs) = sub \<or> contains sub cs)"

text \<open>\<open>_check_config\<close>\<close>

definition check_config :: "handler \<Rightarrow> bool \<times> handler" where
  "check_config s =
     (let (OK, image_format) = config s ''imageformat'';
          s = say [Lookup ''imageformat''] s
      in if OK \<ge> GP_OK then
           (let v = wvalue image_format
            in if contains ''raw'' (lower v)
               then (False, say [Print ''Cannot preview raw images''] s)
               else (True, s))
         else (True, s))"

text \<open>
  \<open>_do_capture\<close>. The first component of the result is the exception that leaves the
  method, if any; the state is the one reached when it does.
\<close>

definition do_capture :: "env \<Rightarrow> handler \<Rightarrow> error option \<times> handler" where
  "do_capture E s =
     (let (OK, camera_file) = preview E (shots s);
          s = say [CapturePreview] (s\<lparr>shots := shots s + 1\<rparr>)
      in if OK < GP_OK then
           (None, (say [Print ''Failed to capture''] s)\<lparr>running := False\<rparr>)
         else
           case decode E camera_file of
             None \<Rightarrow> (Some IOError, s)
           | Some img \<Rightarrow>
               (let s = s\<lparr>image_data := tobytes img\<rparr>;
                    s = say [NewImage (image_data s) (width img) (height img)] s
                in case histogram_image (histogram img) of
                     Inl e \<Rightarrow> (Some e, s)
                   | Inr (q_image, clipping) \<Rightarrow>
                       (let s = say [NewHistogram q_image, NewClipping clipping] s
                        in case measure_focus img of
                             Inl e \<Rightarrow> (Some e, s)
                           | Inr rms \<Rightarrow> (None, say [NewFocus rms] s))))"

text \<open>\<open>_do_continuous\<close>: the check of the flag, then lines 110 to 113.\<close>

definition capture_and_post :: "env \<Rightarrow> handler \<Rightarrow> error option \<times> handler" where
  "capture_and_post E s =
     (case do_capture E s of
        (Some e, s) \<Rightarrow> (Some e, s)
      | (None, s) \<Rightarrow> (None, say [PostEvent] (s\<lparr>queue := queue s @ [DoNext]\<rparr>)))"

definition do_continuous :: "env \<Rightarrow> handler \<Rightarrow> error option \<times> handler" where
  "do_continuous E s = (if \<not> running s then (None, s) else capture_and_post E s)"

text \<open>The slots \<open>one_shot\<close> and \<open>continuous\<close>, and \<open>shut_down\<close>.\<close>

definition one_shot :: "env \<Rightarrow> handler \<Rightarrow> error option \<times> handler" where
  "one_shot E s =
     (if running s then (None, s)
      else case check_config s of
             (False, s) \<Rightarrow> (None, s)
           | (True, s) \<Rightarrow> do_capture E s)"

definition continuous :: "env \<Rightarrow> handler \<Rightarrow> error option \<times> handler" where
  "continuous E s =
     (if running s then (None, s\<lparr>running := False\<rparr>)
      else case check_config s of
             (False, s) \<Rightarrow> (None, s)
           | (True, s) \<Rightarrow> do_continuous E (s\<lparr>running := True\<rparr>))"

definition shut_down :: "handler \<Rightarrow> handler" where
  "shut_down s = say [CameraExit] (s\<lparr>running := False\<rparr>)"

text \<open>\<open>event\<close>: an event of another type goes to the base class, which does nothing here.\<close>

definition event :: "env \<Rightarrow> handler \<Rightarrow> qevent \<Rightarrow> error option \<times> handler" where
  "event E s e = (if e \<noteq> DoNext then (None, s) else do_continuous E s)"

text \<open>
  The handler's event loop, for as many steps as \<open>fuel\<close> allows: it takes the oldest
  event of the queue and delivers it, until the queue is empty. An exception that
  leaves \<open>event\<close> is reported and the loop goes on. The result is \<open>None\<close> when the fuel
  runs out before the queue is empty.
\<close>

fun drain :: "env \<Rightarrow> nat \<Rightarrow> handler \<Rightarrow> handler option" where
  "drain E 0 s = (if queue s = [] then Some s else None)"
| "drain E (Suc n) s =
     (case queue s of
        [] \<Rightarrow> Some s
      | e # es \<Rightarrow> drain E n (snd (event E (s\<lparr>queue := es\<rparr>) e)))"

subsection \<open>Cameras and handlers to try the model on\<close>

text \<open>
  A configuration whose image format is a raw one, a configuration without any of the
  settings the program looks for, a camera whose preview always fails, and a handler
  that has just been created.
\<close>

definition raw_widget :: widget where
  "raw_widget = \<lparr>wvalue = ''RAW + Large Fine JPEG'', choices = []\<rparr>"

definition no_widget :: widget where
  "no_widget = \<lparr>wvalue = [], choices = []\<rparr>"

definition raw_config :: "string \<Rightarrow> int \<times> widget" where
  "raw_config name = (if name = ''imageformat'' then (GP_OK, raw_widget) else (GP_ERROR_BAD_PARAMETERS, no_widget))"

definition bare_config :: "string \<Rightarrow> int \<times> widget" where
  "bare_config name = (GP_ERROR_BAD_PARAMETERS, no_widget)"

definition dead_camera :: env where
  "dead_camera = \<lparr>init_rc = GP_OK, get_config_rc = GP_OK, tree = bare_config, set_config_rc = GP_OK,
     preview = (\<lambda>n. (- 1, [])), decode = (\<lambda>d. None)\<rparr>"

definition idle :: "(string \<Rightarrow> int \<times> widget) \<Rightarrow> handler" where
  "idle c = \<lparr>running = False, config = c, image_data = [], shots = 0, queue = [], trace = []\<rparr>"

text \<open>
  Three frames, one of a single black pixel and two of two rows of two pixels, and a
  camera whose preview always succeeds and decodes to the given frame.
\<close>

definition dark_frame :: image where
  "dark_frame = \<lparr>width = 1, height = 1, raster = [[(0, 0, 0)]]\<rparr>"

definition test_frame :: image where
  "test_frame = \<lparr>width = 2, height = 2,
      raster = [[(255, 0, 255), (10, 20, 30)], [(12, 20, 255), (255, 200, 40)]]\<rparr>"

definition still_camera :: "image \<Rightarrow> env" where
  "still_camera img = \<lparr>init_rc = GP_OK, get_config_rc = GP_OK, tree = bare_config,
     set_config_rc = GP_OK, preview = (\<lambda>n. (GP_OK, [])), decode = (\<lambda>d. Some img)\<rparr>"

definition striped_frame :: image where
  "striped_frame = \<lparr>width = 2, height = 2,
      raster = [[(255, 0, 255), (255, 4, 250)], [(255, 0, 255), (255, 4, 250)]]\<rparr>"

section \<open>Properties\<close>

subsection \<open>What the methods do, case by case\<close>

lemma do_capture_failed:
  assumes "fst (preview E (shots s)) < GP_OK"
  shows "do_capture E s =
           (None, s\<lparr>running := False, shots := shots s + 1,
                    trace := trace s @ [CapturePreview, Print ''Failed to capture'']\<rparr>)"
  using assms by (cases "preview E (shots s)") (simp add: do_capture_def say_def)

lemma check_config_raw:
  assumes "fst (config s ''imageformat'') \<ge> GP_OK"
    and "contains ''raw'' (lower (wvalue (snd (config s ''imageformat''))))"
  shows "check_config s =
           (False, s\<lparr>trace := trace s @ [Lookup ''imageformat'', Print ''Cannot preview raw images'']\<rparr>)"
  using assms by (cases "config s ''imageformat''") (simp add: check_config_def say_def)

lemma check_config_missing:
  assumes "fst (config s ''imageformat'') < GP_OK"
  shows "check_config s = (True, s\<lparr>trace := trace s @ [Lookup ''imageformat'']\<rparr>)"
  using assms by (cases "config s ''imageformat''") (simp add: check_config_def say_def)

lemma check_config_True:
  assumes "fst (check_config s)"
  shows "check_config s = (True, s\<lparr>trace := trace s @ [Lookup ''imageformat'']\<rparr>)"
  using assms by (cases "config s ''imageformat''") (simp add: check_config_def say_def Let_def split: if_splits)

lemma drain_stopped:
  "\<not> running s \<Longrightarrow> length (queue s) \<le> n \<Longrightarrow> drain E n s = Some (s\<lparr>queue := []\<rparr>)"
proof (induction n arbitrary: s)
  case 0
  then show ?case by simp
next
  case (Suc n)
  show ?case
  proof (cases "queue s")
    case Nil
    then show ?thesis by simp
  next
    case (Cons e es)
    have ev: "event E (s\<lparr>queue := es\<rparr>) e = (None, s\<lparr>queue := es\<rparr>)"
      using Suc.prems(1) by (simp add: event_def do_continuous_def)
    have "drain E n (s\<lparr>queue := es\<rparr>) = Some (s\<lparr>queue := es, queue := []\<rparr>)"
      using Suc.IH[of "s\<lparr>queue := es\<rparr>"] Suc.prems Cons by simp
    then show ?thesis using Cons ev by simp
  qed
qed

lemma do_capture_running: "running (snd (do_capture E s)) \<Longrightarrow> running s"
  by (cases "preview E (shots s)")
     (auto simp: do_capture_def say_def Let_def split: option.splits sum.splits prod.splits if_splits)

lemma do_capture_shots: "shots (snd (do_capture E s)) = shots s + 1"
  by (cases "preview E (shots s)")
     (auto simp: do_capture_def say_def Let_def split: option.splits sum.splits prod.splits if_splits)

lemma do_capture_queue: "queue (snd (do_capture E s)) = queue s"
  by (cases "preview E (shots s)")
     (auto simp: do_capture_def say_def Let_def split: option.splits sum.splits prod.splits if_splits)

lemma capture_and_post_running: "running (snd (capture_and_post E s)) \<Longrightarrow> running s"
  using do_capture_running[of E s]
  by (cases "do_capture E s") (auto simp: capture_and_post_def say_def split: option.splits)

lemma capture_and_post_shots: "shots (snd (capture_and_post E s)) = shots s + 1"
  using do_capture_shots[of E s]
  by (cases "do_capture E s") (auto simp: capture_and_post_def say_def split: option.splits)

lemma capture_and_post_queue:
  "queue (snd (capture_and_post E s)) = queue s \<or> queue (snd (capture_and_post E s)) = queue s @ [DoNext]"
  using do_capture_queue[of E s]
  by (cases "do_capture E s") (auto simp: capture_and_post_def say_def split: option.splits)

subsection \<open>The single shot\<close>

text \<open>
  C9. While continuous mode is active (\<open>running\<close> is true), \<open>one_shot\<close> does nothing:
  no exception, and the state, with its trace of configuration lookups, captures,
  printed lines, signals and posted events, is the one it was called in.
\<close>

theorem one_shot_while_running:
  "running s \<Longrightarrow> one_shot E s = (None, s)"
  by (simp add: one_shot_def)

theorem one_shot_while_running_witness:
  "running ((idle raw_config)\<lparr>running := True\<rparr>) \<and>
   one_shot dead_camera ((idle raw_config)\<lparr>running := True\<rparr>) = (None, (idle raw_config)\<lparr>running := True\<rparr>)"
  using one_shot_while_running[of "(idle raw_config)\<lparr>running := True\<rparr>" dead_camera]
  by simp

text \<open>
  C4. When the configuration has an \<open>imageformat\<close> setting whose value contains
  \<open>raw\<close> in any mix of cases, \<open>one_shot\<close> never asks the camera for a preview: the
  number of previews asked for and the capture calls of the trace are unchanged. Unless
  continuous mode is active, in which case nothing happens at all, the check is made
  first and the refusal is printed.
\<close>

theorem raw_format_blocks_one_shot:
  assumes "GP_OK \<le> fst (config s ''imageformat'')"
    and "contains ''raw'' (lower (wvalue (snd (config s ''imageformat''))))"
  shows "one_shot E s =
           (None, if running s then s
                  else s\<lparr>trace := trace s @ [Lookup ''imageformat'', Print ''Cannot preview raw images'']\<rparr>)
         \<and> shots (snd (one_shot E s)) = shots s
         \<and> filter (\<lambda>a. a = CapturePreview) (trace (snd (one_shot E s))) = filter (\<lambda>a. a = CapturePreview) (trace s)"
  using check_config_raw[OF assms] by (simp add: one_shot_def)

theorem raw_format_blocks_one_shot_witness:
  "GP_OK \<le> fst (config (idle raw_config) ''imageformat'') \<and>
   contains ''raw'' (lower (wvalue (snd (config (idle raw_config) ''imageformat'')))) \<and>
   one_shot dead_camera (idle raw_config) =
     (None, (idle raw_config)\<lparr>trace := [Lookup ''imageformat'', Print ''Cannot preview raw images'']\<rparr>)"
proof -
  have a: "GP_OK \<le> fst (config (idle raw_config) ''imageformat'')"
    by (simp add: idle_def raw_config_def)
  have b: "contains ''raw'' (lower (wvalue (snd (config (idle raw_config) ''imageformat''))))"
    by (simp add: idle_def raw_config_def raw_widget_def lower_def lower_char_def)
  have c: "\<not> running (idle raw_config)" "trace (idle raw_config) = []"
    by (simp_all add: idle_def)
  show ?thesis
    using a b c raw_format_blocks_one_shot[OF a b, of dead_camera] by simp
qed

subsection \<open>A preview that fails\<close>

text \<open>
  C10. When the preview call fails, none of the four signals \<open>new_image\<close>,
  \<open>new_histogram\<close>, \<open>new_focus\<close>, \<open>new_clipping\<close> is emitted: the signals of the trace
  are the same after \<open>_do_capture\<close> as before, and so they are after a \<open>one_shot\<close> or a
  \<open>_do_continuous\<close> that runs into the failure.
\<close>

theorem failed_capture_emits_nothing:
  assumes "fst (preview E (shots s)) < GP_OK"
  shows "filter is_signal (trace (snd (do_capture E s))) = filter is_signal (trace s)
       \<and> filter is_signal (trace (snd (one_shot E s))) = filter is_signal (trace s)
       \<and> filter is_signal (trace (snd (do_continuous E s))) = filter is_signal (trace s)"
proof -
  have 1: "filter is_signal (trace (snd (do_capture E s))) = filter is_signal (trace s)"
    by (simp add: do_capture_failed[OF assms])
  have 2: "filter is_signal (trace (snd (one_shot E s))) = filter is_signal (trace s)"
  proof (cases "fst (check_config s)")
    case True
    let ?s = "s\<lparr>trace := trace s @ [Lookup ''imageformat'']\<rparr>"
    have "fst (preview E (shots ?s)) < GP_OK" using assms by simp
    then show ?thesis
      using check_config_True[OF True] by (simp add: one_shot_def do_capture_failed)
  next
    case False
    then show ?thesis
      by (cases "config s ''imageformat''")
         (auto simp: one_shot_def check_config_def say_def Let_def split: if_splits)
  qed
  have 3: "filter is_signal (trace (snd (do_continuous E s))) = filter is_signal (trace s)"
    by (simp add: do_continuous_def capture_and_post_def do_capture_failed[OF assms] say_def)
  show ?thesis using 1 2 3 by simp
qed

theorem failed_capture_emits_nothing_witness:
  "fst (preview dead_camera (shots (idle bare_config))) < GP_OK \<and>
   filter is_signal (trace (snd (do_capture dead_camera (idle bare_config)))) = []"
proof -
  have a: "fst (preview dead_camera (shots (idle bare_config))) < GP_OK"
    by (simp add: dead_camera_def GP_OK_def)
  show ?thesis
    using a failed_capture_emits_nothing[OF a] by (simp add: idle_def)
qed

text \<open>
  C6. When the preview call returns an error, \<open>_do_capture\<close> ends without an exception,
  having asked the camera once, printed \<open>Failed to capture\<close> and cleared \<open>running\<close>.
  A single shot that gets that far returns in the same way. In continuous mode the
  event for the next round is still posted, but its delivery finds the flag cleared and
  does nothing: the capture is not tried again.
\<close>

theorem failed_capture_is_not_fatal:
  assumes "fst (preview E (shots s)) < GP_OK"
  shows "do_capture E s =
           (None, s\<lparr>running := False, shots := shots s + 1,
                    trace := trace s @ [CapturePreview, Print ''Failed to capture'']\<rparr>)
       \<and> (\<not> running s \<and> fst (check_config s) \<longrightarrow>
            one_shot E s =
              (None, s\<lparr>running := False, shots := shots s + 1,
                       trace := trace s @ [Lookup ''imageformat'', CapturePreview,
                                           Print ''Failed to capture'']\<rparr>))
       \<and> (running s \<longrightarrow>
            do_continuous E s =
              (None, s\<lparr>running := False, shots := shots s + 1, queue := queue s @ [DoNext],
                       trace := trace s @ [CapturePreview, Print ''Failed to capture'',
                                           PostEvent]\<rparr>)
            \<and> event E (snd (do_continuous E s)) DoNext = (None, snd (do_continuous E s)))"
proof -
  let ?s = "s\<lparr>trace := trace s @ [Lookup ''imageformat'']\<rparr>"
  have "fst (preview E (shots ?s)) < GP_OK" using assms by simp
  then have "fst (check_config s) \<Longrightarrow> \<not> running s \<Longrightarrow> one_shot E s =
              (None, s\<lparr>running := False, shots := shots s + 1,
                       trace := trace s @ [Lookup ''imageformat'', CapturePreview,
                                           Print ''Failed to capture'']\<rparr>)"
    using check_config_True[of s] by (simp add: one_shot_def do_capture_failed)
  moreover have "running s \<Longrightarrow> do_continuous E s =
              (None, s\<lparr>running := False, shots := shots s + 1, queue := queue s @ [DoNext],
                       trace := trace s @ [CapturePreview, Print ''Failed to capture'',
                                           PostEvent]\<rparr>)"
    by (simp add: do_continuous_def capture_and_post_def do_capture_failed[OF assms] say_def)
  moreover have "running s \<Longrightarrow>
      event E (snd (do_continuous E s)) DoNext = (None, snd (do_continuous E s))"
    using calculation(2) by (simp add: event_def do_continuous_def)
  ultimately show ?thesis using do_capture_failed[OF assms] by blast
qed

theorem failed_capture_is_not_fatal_witness:
  "fst (preview dead_camera (shots (idle bare_config))) < GP_OK \<and>
   \<not> running (idle bare_config) \<and> fst (check_config (idle bare_config)) \<and>
   one_shot dead_camera (idle bare_config) =
     (None, (idle bare_config)\<lparr>running := False, shots := 1,
              trace := [Lookup ''imageformat'', CapturePreview, Print ''Failed to capture'']\<rparr>) \<and>
   running ((idle bare_config)\<lparr>running := True\<rparr>) \<and>
   do_continuous dead_camera ((idle bare_config)\<lparr>running := True\<rparr>) =
     (None, (idle bare_config)\<lparr>running := False, shots := 1, queue := [DoNext],
              trace := [CapturePreview, Print ''Failed to capture'', PostEvent]\<rparr>)"
proof -
  have a: "fst (preview dead_camera (shots (idle bare_config))) < GP_OK"
    by (simp add: dead_camera_def GP_OK_def)
  have a': "fst (preview dead_camera (shots ((idle bare_config)\<lparr>running := True\<rparr>))) < GP_OK"
    by (simp add: dead_camera_def GP_OK_def)
  have b: "\<not> running (idle bare_config)" "shots (idle bare_config) = 0"
    "trace (idle bare_config) = []" "queue (idle bare_config) = []"
    by (simp_all add: idle_def)
  have c: "fst (check_config (idle bare_config))"
    by (simp add: check_config_def idle_def bare_config_def GP_OK_def
        GP_ERROR_BAD_PARAMETERS_def)
  show ?thesis
    using a b c failed_capture_is_not_fatal[OF a] failed_capture_is_not_fatal[OF a']
    by simp
qed

subsection \<open>Settings that are not there\<close>

text \<open>
  C8. When the lookup of \<open>capturesizeclass\<close> fails, \<open>__init__\<close> completes without
  calling \<open>set_config\<close>, the configuration being the tree as the camera gave it. When
  the lookup of \<open>imageformat\<close> fails, \<open>_check_config\<close> prints nothing and returns true,
  so that \<open>one_shot\<close> and \<open>continuous\<close> go on to the capture.
\<close>

theorem missing_setting_is_skipped:
  "(GP_OK \<le> init_rc E \<and> GP_OK \<le> get_config_rc E \<and> fst (tree E ''capturesizeclass'') < GP_OK \<longrightarrow>
      init E = Inr \<lparr>running = False, config = tree E, image_data = [], shots = 0, queue = [],
                    trace = [CameraInit, GetConfig, Lookup ''capturesizeclass'']\<rparr>)
   \<and> (fst (config s ''imageformat'') < GP_OK \<longrightarrow>
        check_config s = (True, s\<lparr>trace := trace s @ [Lookup ''imageformat'']\<rparr>)
        \<and> (\<not> running s \<longrightarrow>
             one_shot E s = do_capture E (s\<lparr>trace := trace s @ [Lookup ''imageformat'']\<rparr>)
             \<and> continuous E s =
                 capture_and_post E (s\<lparr>trace := trace s @ [Lookup ''imageformat''], running := True\<rparr>)))"
proof -
  have "init E = Inr \<lparr>running = False, config = tree E, image_data = [], shots = 0, queue = [],
                    trace = [CameraInit, GetConfig, Lookup ''capturesizeclass'']\<rparr>"
    if "GP_OK \<le> init_rc E" "GP_OK \<le> get_config_rc E" "fst (tree E ''capturesizeclass'') < GP_OK"
    using that by (cases "tree E ''capturesizeclass''") (simp add: init_def)
  moreover have "one_shot E s = do_capture E (s\<lparr>trace := trace s @ [Lookup ''imageformat'']\<rparr>)"
    if "fst (config s ''imageformat'') < GP_OK" "\<not> running s"
    using that check_config_missing[of s] by (simp add: one_shot_def)
  moreover have "continuous E s =
      capture_and_post E (s\<lparr>trace := trace s @ [Lookup ''imageformat''], running := True\<rparr>)"
    if "fst (config s ''imageformat'') < GP_OK" "\<not> running s"
    using that check_config_missing[of s] by (simp add: continuous_def do_continuous_def)
  ultimately show ?thesis using check_config_missing[of s] by blast
qed

theorem missing_setting_is_skipped_witness:
  "GP_OK \<le> init_rc dead_camera \<and> GP_OK \<le> get_config_rc dead_camera \<and>
   fst (tree dead_camera ''capturesizeclass'') < GP_OK \<and>
   init dead_camera = Inr (idle bare_config\<lparr>trace := [CameraInit, GetConfig, Lookup ''capturesizeclass'']\<rparr>) \<and>
   fst (config (idle bare_config) ''imageformat'') < GP_OK \<and>
   check_config (idle bare_config) = (True, (idle bare_config)\<lparr>trace := [Lookup ''imageformat'']\<rparr>) \<and>
   \<not> running (idle bare_config) \<and>
   one_shot dead_camera (idle bare_config) =
     do_capture dead_camera ((idle bare_config)\<lparr>trace := [Lookup ''imageformat'']\<rparr>)"
proof -
  have a: "GP_OK \<le> init_rc dead_camera \<and> GP_OK \<le> get_config_rc dead_camera \<and>
           fst (tree dead_camera ''capturesizeclass'') < GP_OK"
    by (simp add: dead_camera_def bare_config_def GP_OK_def GP_ERROR_BAD_PARAMETERS_def)
  have b: "fst (config (idle bare_config) ''imageformat'') < GP_OK"
    by (simp add: idle_def bare_config_def GP_OK_def GP_ERROR_BAD_PARAMETERS_def)
  have c: "\<not> running (idle bare_config)" "trace (idle bare_config) = []"
    by (simp_all add: idle_def)
  have d: "tree dead_camera = bare_config" by (simp add: dead_camera_def)
  show ?thesis
    using a b c missing_setting_is_skipped[of dead_camera "idle bare_config"]
    by (simp add: d idle_def)
qed

subsection \<open>Stopping continuous mode\<close>

text \<open>
  C5. Continuous mode is running with \<open>N\<close> events for a next capture in the queue, and
  is told to stop, by the slot \<open>continuous\<close> or by \<open>shut_down\<close>, both of which clear
  \<open>running\<close>. A round of \<open>_do_continuous\<close> may be in flight at that moment, past its check
  of the flag (\<open>in_flight\<close>); it completes its capture. From there the event loop empties
  the queue within \<open>N + 1\<close> deliveries, and the camera has been asked for at most
  \<open>N + 1\<close> more previews: one if a round was in flight, none otherwise.
\<close>

theorem stop_bounds_captures:
  assumes "running s0" and "queue s0 = replicate N DoNext"
    and "s1 = snd (continuous E s0) \<or> s1 = shut_down s0"
  shows "\<exists>s2. drain E (N + 1) (if in_flight then snd (capture_and_post E s1) else s1) = Some s2
              \<and> queue s2 = [] \<and> \<not> running s2
              \<and> shots s2 = shots s0 + (if in_flight then 1 else 0)
              \<and> shots s2 \<le> shots s0 + N + 1"
proof -
  have s1: "\<not> running s1" "queue s1 = replicate N DoNext" "shots s1 = shots s0"
    using assms by (auto simp: continuous_def shut_down_def say_def)
  let ?s = "if in_flight then snd (capture_and_post E s1) else s1"
  have r: "\<not> running ?s" using s1(1) capture_and_post_running[of E s1] by auto
  have q: "length (queue ?s) \<le> N + 1"
    using s1(2) capture_and_post_queue[of E s1] by auto
  have n: "shots ?s = shots s0 + (if in_flight then 1 else 0)"
    using s1(3) capture_and_post_shots[of E s1] by auto
  have "drain E (N + 1) ?s = Some (?s\<lparr>queue := []\<rparr>)"
    using drain_stopped[OF r q] .
  then show ?thesis using r n by auto
qed

theorem stop_bounds_captures_witness:
  "running ((idle bare_config)\<lparr>running := True, queue := [DoNext, DoNext]\<rparr>) \<and>
   queue ((idle bare_config)\<lparr>running := True, queue := [DoNext, DoNext]\<rparr>) = replicate 2 DoNext \<and>
   (\<exists>s2. drain dead_camera 3
            (snd (capture_and_post dead_camera
               (snd (continuous dead_camera
                  ((idle bare_config)\<lparr>running := True, queue := [DoNext, DoNext]\<rparr>))))) = Some s2
         \<and> queue s2 = [] \<and> shots s2 = 1)"
proof -
  let ?s0 = "(idle bare_config)\<lparr>running := True, queue := [DoNext, DoNext]\<rparr>"
  have a: "running ?s0" by simp
  have b: "queue ?s0 = replicate 2 DoNext" by (simp add: numeral_2_eq_2)
  have c: "shots ?s0 = 0" by (simp add: idle_def)
  show ?thesis
    using a b c stop_bounds_captures[OF a b, of "snd (continuous dead_camera ?s0)" dead_camera True]
    by auto
qed

subsection \<open>The histogram and the picture made from it\<close>

lemma upt_3: "[0..<3] = [0, 1, 2]"
  by (simp add: upt_rec)

lemma length_histogram: "length (histogram im) = 768"
  by (simp add: histogram_def upt_3)

lemma histogram_nth:
  assumes "c < 3" and "v < 256"
  shows "histogram im ! (256 * c + v) = length (filter (\<lambda>p. band c p = v) (concat (raster im)))"
proof -
  have "c = 0 \<or> c = 1 \<or> c = 2" using assms(1) by arith
  then show ?thesis
    using assms(2) by (auto simp: histogram_def upt_3 nth_append)
qed

lemma slice_last:
  assumes "start + 256 \<le> length hist"
  shows "take 256 (drop start hist) \<noteq> []"
    and "last (take 256 (drop start hist)) = hist ! (start + 255)"
proof -
  have l: "length (take 256 (drop start hist)) = 256" using assms by simp
  then show "take 256 (drop start hist) \<noteq> []" by auto
  then show "last (take 256 (drop start hist)) = hist ! (start + 255)"
    using assms by (simp add: last_conv_nth l)
qed

lemma histogram_image_768:
  assumes "length hist = 768"
  shows "histogram_image hist =
           Inr (draw_band (draw_band (draw_band (filled 100 256 Qt_white)
                  (take 256 hist) 0xff0000)
                  (take 256 (drop 256 hist)) 0x00ff00)
                  (take 256 (drop 512 hist)) 0x0000ff,
                [hist ! 255, hist ! 511, hist ! 767])"
proof -
  have a: "take 256 (drop 0 hist) \<noteq> []" "last (take 256 (drop 0 hist)) = hist ! 255"
    using slice_last[of 0 hist] assms by simp_all
  have b: "take 256 (drop 256 hist) \<noteq> []" "last (take 256 (drop 256 hist)) = hist ! 511"
    using slice_last[of 256 hist] assms by simp_all
  have c: "take 256 (drop 512 hist) \<noteq> []" "last (take 256 (drop 512 hist)) = hist ! 767"
    using slice_last[of 512 hist] assms by simp_all
  show ?thesis
    using a b c by (simp add: histogram_image_def Let_def)
qed

lemma band_hist_nth:
  assumes "c < 3" and "v < 256"
  shows "band_hist (histogram img) c ! v =
           length (filter (\<lambda>p. band c p = v) (concat (raster img)))"
proof -
  have "256 * c + v < length (histogram img)" using assms by (simp add: length_histogram)
  then show ?thesis
    using assms histogram_nth[OF assms, of img] by (simp add: band_hist_def)
qed

lemma length_band_hist: "c < 3 \<Longrightarrow> length (band_hist (histogram img) c) = 256"
  by (simp add: band_hist_def length_histogram)

lemma do_capture_ok:
  assumes "GP_OK \<le> fst (preview E (shots s))"
    and "decode E (snd (preview E (shots s))) = Some img"
    and "histogram_image (histogram img) = Inr (q, clipping)"
  shows "do_capture E s =
     (case measure_focus img of
        Inl e \<Rightarrow> (Some e, s\<lparr>shots := shots s + 1, image_data := tobytes img,
            trace := trace s @ [CapturePreview, NewImage (tobytes img) (width img) (height img),
                                NewHistogram q, NewClipping clipping]\<rparr>)
      | Inr rms \<Rightarrow> (None, s\<lparr>shots := shots s + 1, image_data := tobytes img,
            trace := trace s @ [CapturePreview, NewImage (tobytes img) (width img) (height img),
                                NewHistogram q, NewClipping clipping, NewFocus rms]\<rparr>))"
  using assms
  by (cases "preview E (shots s)") (simp add: do_capture_def say_def Let_def split: sum.splits)

lemma bar_mono:
  assumes "0 < m" and "c \<le> c'"
  shows "bar m c \<le> bar m c'"
proof -
  let ?a = "real (1 + c) / m" and ?b = "real (1 + c') / m"
  have "0 < ?a" using assms(1) by simp
  moreover have "?a \<le> ?b" using assms by (simp add: divide_right_mono)
  ultimately have "log 10 ?a \<le> log 10 ?b" by (simp add: log_le_cancel_iff)
  then have "max 0 (1 + log 10 ?a / 5) \<le> max 0 (1 + log 10 ?b / 5)" by (simp add: max_def)
  then show ?thesis unfolding bar_def Let_def by simp
qed

lemma bar_nonneg: "0 \<le> bar m c"
  unfolding bar_def Let_def by simp

lemma bar_le_98:
  assumes "real (1 + c) \<le> m"
  shows "bar m c \<le> 98"
proof -
  let ?a = "real (1 + c) / m"
  have m: "0 < m" using assms by (simp add: less_le_trans[of 0 "real (1 + c)"])
  have "0 < ?a" using m by simp
  moreover have "?a \<le> 1" using assms m by simp
  ultimately have "log 10 ?a \<le> 0" by (simp add: log_le_zero_cancel_iff)
  then have "max 0 (1 + log 10 ?a / 5) \<le> 1" by simp
  then show ?thesis unfolding bar_def Let_def by simp
qed

lemma bar_full: "bar (real (1 + c)) c = 98"
  unfolding bar_def Let_def by simp

lemma to_int_nonneg: "0 \<le> r \<Longrightarrow> to_int r = \<lfloor>r\<rfloor>"
  by (simp add: to_int_def)

lemma wf_filled: "wf_qimage (filled w h c)"
  by (simp add: wf_qimage_def filled_def list_all_iff)

lemma pixel_filled: "p < w \<Longrightarrow> x < h \<Longrightarrow> pixel (filled w h c) p x = c"
  by (simp add: pixel_def filled_def)

lemma setPixel_size [simp]:
  "qwidth (setPixel q a b col) = qwidth q" "qheight (setPixel q a b col) = qheight q"
  by (simp_all add: setPixel_def)

lemma setPixel_wf:
  assumes "wf_qimage q"
  shows "wf_qimage (setPixel q a b col)"
proof (cases "0 \<le> a \<and> a < int (qwidth q) \<and> 0 \<le> b \<and> b < int (qheight q)")
  case False
  then have "setPixel q a b col = q" unfolding setPixel_def by (simp only: if_False simp_thms)
  then show ?thesis using assms by simp
next
  case True
  let ?rows = "(qrows q)[nat b := (qrows q ! nat b)[nat a := col]]"
  have len: "length (qrows q) = qheight q" and all: "\<forall>r\<in>set (qrows q). length r = qwidth q"
    using assms by (simp_all add: wf_qimage_def list_all_iff)
  have "nat b < length (qrows q)" using True len by (simp add: nat_less_iff)
  then have "length (qrows q ! nat b) = qwidth q" using all by simp
  then have "\<forall>r\<in>set ?rows. length r = qwidth q"
    using all set_update_subset_insert[of "qrows q" "nat b" "(qrows q ! nat b)[nat a := col]"]
    by auto
  then have "wf_qimage (q\<lparr>qrows := ?rows\<rparr>)"
    using len by (simp add: wf_qimage_def list_all_iff)
  moreover have "setPixel q a b col = q\<lparr>qrows := ?rows\<rparr>"
    unfolding setPixel_def using True by (simp only: if_True simp_thms)
  ultimately show ?thesis by simp
qed

lemma pixel_setPixel:
  assumes "wf_qimage q" and "p < qwidth q" and "x < qheight q"
  shows "pixel (setPixel q a b col) p x = (if a = int p \<and> b = int x then col else pixel q p x)"
proof -
  have len: "length (qrows q) = qheight q" "\<And>y. y < qheight q \<Longrightarrow> length (qrows q ! y) = qwidth q"
    using assms(1) by (auto simp: wf_qimage_def list_all_iff)
  show ?thesis
    using assms(2,3) len
    by (auto simp: pixel_def setPixel_def nth_list_update)
qed

lemma draw_loop:
  fixes A B :: "nat \<Rightarrow> int" and col :: nat
  defines "f \<equiv> (\<lambda>q x. setPixel (setPixel q (A x) (int x) col) (B x) (int x) col)"
  assumes "wf_qimage q" and "p < qwidth q" and "x < qheight q"
  shows "wf_qimage (foldl f q [0..<k]) \<and> qwidth (foldl f q [0..<k]) = qwidth q
       \<and> qheight (foldl f q [0..<k]) = qheight q
       \<and> pixel (foldl f q [0..<k]) p x =
           (if x < k \<and> (A x = int p \<or> B x = int p) then col else pixel q p x)"
proof (induction k)
  case 0
  then show ?case using assms by simp
next
  case (Suc k)
  let ?q = "foldl f q [0..<k]"
  let ?q1 = "setPixel ?q (A k) (int k) col"
  let ?q2 = "setPixel ?q1 (B k) (int k) col"
  have step: "foldl f q [0..<Suc k] = ?q2"
    by (simp add: f_def)
  have wf0: "wf_qimage ?q" and w0: "qwidth ?q = qwidth q" and h0: "qheight ?q = qheight q"
    and p0: "pixel ?q p x = (if x < k \<and> (A x = int p \<or> B x = int p) then col else pixel q p x)"
    using Suc by simp_all
  have wf1: "wf_qimage ?q1" using wf0 by (rule setPixel_wf)
  have wf2: "wf_qimage ?q2" using wf1 by (rule setPixel_wf)
  have p1: "pixel ?q1 p x = (if A k = int p \<and> int k = int x then col else pixel ?q p x)"
    using pixel_setPixel[OF wf0, of p x "A k" "int k" col] assms(3,4) w0 h0 by simp
  have p2: "pixel ?q2 p x = (if B k = int p \<and> int k = int x then col else pixel ?q1 p x)"
    using pixel_setPixel[OF wf1, of p x "B k" "int k" col] assms(3,4) w0 h0 by simp
  have "pixel ?q2 p x =
          (if x < Suc k \<and> (A x = int p \<or> B x = int p) then col else pixel q p x)"
  proof (cases "x = k")
    case True
    then show ?thesis unfolding p2 p1 p0 by simp
  next
    case False
    then have "(x < Suc k) = (x < k)" by arith
    then show ?thesis unfolding p2 p1 p0 using False by simp
  qed
  then show ?case
    unfolding step using wf2 w0 h0 by simp
qed

lemma draw_band_pixel:
  assumes "wf_qimage q" and "p < qwidth q" and "x < qheight q"
  shows "wf_qimage (draw_band q bh col) \<and> qwidth (draw_band q bh col) = qwidth q
       \<and> qheight (draw_band q bh col) = qheight q
       \<and> pixel (draw_band q bh col) p x =
           (if x < length bh \<and>
               (to_int (bar (real (1 + Max (set bh))) (bh ! x)) = int p \<or>
                to_int (bar (real (1 + Max (set bh))) (bh ! x) + 1) = int p)
            then col else pixel q p x)"
proof -
  have "draw_band q bh col =
          foldl (\<lambda>q x. setPixel (setPixel q (to_int (bar (real (1 + Max (set bh))) (bh ! x)))
                                    (int x) col)
                           (to_int (bar (real (1 + Max (set bh))) (bh ! x) + 1)) (int x) col)
                q [0..<length bh]"
    unfolding draw_band_def Let_def ..
  then show ?thesis
    using draw_loop[OF assms, of "\<lambda>x. to_int (bar (real (1 + Max (set bh))) (bh ! x))" col
        "\<lambda>x. to_int (bar (real (1 + Max (set bh))) (bh ! x) + 1)" "length bh"]
    by simp
qed

lemma histogram_image_pixel:
  assumes "length hist = 768" and "p < 100" and "x < 256"
  shows "\<exists>q clipping. histogram_image hist = Inr (q, clipping) \<and>
           pixel q p x =
             (if marked hist 2 x p then 0x0000ff
              else if marked hist 1 x p then 0x00ff00
              else if marked hist 0 x p then 0xff0000
              else Qt_white)"
proof -
  let ?q0 = "filled 100 256 Qt_white"
  let ?q1 = "draw_band ?q0 (band_hist hist 0) 0xff0000"
  let ?q2 = "draw_band ?q1 (band_hist hist 1) 0x00ff00"
  let ?q3 = "draw_band ?q2 (band_hist hist 2) 0x0000ff"
  have len: "length (band_hist hist 0) = 256" "length (band_hist hist 1) = 256"
    "length (band_hist hist 2) = 256"
    using assms(1) by (simp_all add: band_hist_def)
  have q0: "wf_qimage ?q0" "qwidth ?q0 = 100" "qheight ?q0 = 256" "pixel ?q0 p x = Qt_white"
    using assms(2,3) by (simp_all add: wf_filled pixel_filled) (simp_all add: filled_def)
  have q1: "wf_qimage ?q1" "qwidth ?q1 = 100" "qheight ?q1 = 256"
    "pixel ?q1 p x = (if marked hist 0 x p then 0xff0000 else Qt_white)"
    using draw_band_pixel[OF q0(1), of p x "band_hist hist 0" "0xff0000"] q0 assms(2,3) len
    by (simp_all add: marked_def bar_length_def)
  have q2: "wf_qimage ?q2" "qwidth ?q2 = 100" "qheight ?q2 = 256"
    "pixel ?q2 p x = (if marked hist 1 x p then 0x00ff00 else pixel ?q1 p x)"
    using draw_band_pixel[OF q1(1), of p x "band_hist hist 1" "0x00ff00"] q1(2,3) assms(2,3) len
    by (simp_all add: marked_def bar_length_def)
  have q3: "pixel ?q3 p x = (if marked hist 2 x p then 0x0000ff else pixel ?q2 p x)"
    using draw_band_pixel[OF q2(1), of p x "band_hist hist 2" "0x0000ff"] q2(2,3) assms(2,3) len
    by (simp_all add: marked_def bar_length_def)
  have "histogram_image hist = Inr (?q3, [hist ! 255, hist ! 511, hist ! 767])"
    using histogram_image_768[OF assms(1)] by (simp add: band_hist_def)
  then show ?thesis using q3 q2(4) q1(4) by simp
qed

lemma dark_band:
  assumes "c < 3"
  shows "bar_length (histogram dark_frame) c 0 = 98"
proof -
  let ?b = "band_hist (histogram dark_frame) c"
  have nth: "\<And>v. v < 256 \<Longrightarrow> ?b ! v = (if v = 0 then 1 else 0)"
    using assms by (auto simp: band_hist_nth dark_frame_def)
  have len: "length ?b = 256" using assms by (rule length_band_hist)
  have "?b ! 0 \<in> set ?b" using len by (intro nth_mem) simp
  then have in1: "1 \<in> set ?b" using nth[of 0] by simp
  have "\<And>y. y \<in> set ?b \<Longrightarrow> y \<le> 1"
    using nth len by (auto simp: in_set_conv_nth)
  then have "Max (set ?b) = 1"
    using in1 by (intro Max_eqI) auto
  moreover have "?b ! 0 = 1" using nth[of 0] by simp
  ultimately show ?thesis
    using bar_full[of 1] by (simp add: bar_length_def)
qed

text \<open>
  C3. For a frame that was captured and decoded, the clipping counts that
  \<open>new_clipping\<close> carries are, channel by channel, the last entry (index 255) of that
  channel's 256 entries of the frame's histogram, which is the number of pixels whose
  value in that channel is 255.
\<close>

theorem clipping_is_top_bin:
  assumes "GP_OK \<le> fst (preview E (shots s))"
    and "decode E (snd (preview E (shots s))) = Some img"
  shows "(\<exists>q rest.
            trace (snd (do_capture E s)) =
              trace s @ [CapturePreview, NewImage (tobytes img) (width img) (height img),
                         NewHistogram q,
                         NewClipping (map (\<lambda>c. band_hist (histogram img) c ! 255) [0, 1, 2])]
                      @ rest
            \<and> (rest = [] \<or> (\<exists>rms. rest = [NewFocus rms])))
       \<and> (\<forall>c<3. length (band_hist (histogram img) c) = 256
                \<and> band_hist (histogram img) c ! 255 =
                    length (filter (\<lambda>p. band c p = 255) (concat (raster img))))"
proof -
  let ?h = "histogram img"
  have len: "length ?h = 768" by (rule length_histogram)
  have clip: "map (\<lambda>c. band_hist ?h c ! 255) [0, 1, 2] = [?h ! 255, ?h ! 511, ?h ! 767]"
    using len by (simp add: band_hist_def)
  obtain q where q: "histogram_image ?h = Inr (q, [?h ! 255, ?h ! 511, ?h ! 767])"
    using histogram_image_768[OF len] by blast
  have "\<exists>q rest.
            trace (snd (do_capture E s)) =
              trace s @ [CapturePreview, NewImage (tobytes img) (width img) (height img),
                         NewHistogram q,
                         NewClipping (map (\<lambda>c. band_hist (histogram img) c ! 255) [0, 1, 2])]
                      @ rest
            \<and> (rest = [] \<or> (\<exists>rms. rest = [NewFocus rms]))"
    unfolding clip using do_capture_ok[OF assms q]
    by (cases "measure_focus img") auto
  moreover have "\<forall>c<3. length (band_hist ?h c) = 256
                \<and> band_hist ?h c ! 255 =
                    length (filter (\<lambda>p. band c p = 255) (concat (raster img)))"
    by (simp add: band_hist_nth length_band_hist)
  ultimately show ?thesis by blast
qed

theorem clipping_is_top_bin_witness:
  "GP_OK \<le> fst (preview (still_camera test_frame) (shots (idle bare_config))) \<and>
   decode (still_camera test_frame)
     (snd (preview (still_camera test_frame) (shots (idle bare_config)))) = Some test_frame \<and>
   (\<exists>q rest.
      trace (snd (do_capture (still_camera test_frame) (idle bare_config))) =
        [CapturePreview, NewImage (tobytes test_frame) 2 2, NewHistogram q, NewClipping [2, 0, 2]]
        @ rest)"
proof -
  have a: "GP_OK \<le> fst (preview (still_camera test_frame) (shots (idle bare_config)))"
    by (simp add: still_camera_def)
  have b: "decode (still_camera test_frame)
     (snd (preview (still_camera test_frame) (shots (idle bare_config)))) = Some test_frame"
    by (simp add: still_camera_def)
  have c: "trace (idle bare_config) = []" "width test_frame = 2" "height test_frame = 2"
    by (simp_all add: idle_def test_frame_def)
  have d: "concat (raster test_frame) = [(255, 0, 255), (10, 20, 30), (12, 20, 255), (255, 200, 40)]"
    by (simp add: test_frame_def)
  show ?thesis
    using a b clipping_is_top_bin[OF a b] unfolding c d by auto
qed

text \<open>
  C2. With the bins of one channel, the position computed for a bin does not decrease
  when the count of the bin increases, for counts above zero; it is never below 0 and
  never above 98.
\<close>

theorem bar_monotone:
  assumes "x < length counts" and "x' < length counts"
    and "0 < counts ! x" and "counts ! x \<le> counts ! x'"
  shows "bar (real (1 + Max (set counts))) (counts ! x)
           \<le> bar (real (1 + Max (set counts))) (counts ! x')
       \<and> 0 \<le> bar (real (1 + Max (set counts))) (counts ! x)
       \<and> bar (real (1 + Max (set counts))) (counts ! x') \<le> 98"
proof -
  have "counts ! x' \<le> Max (set counts)"
    using assms(2) by simp
  then have "real (1 + counts ! x') \<le> real (1 + Max (set counts))"
    by simp
  then show ?thesis
    using bar_mono[OF _ assms(4), of "real (1 + Max (set counts))"] bar_nonneg bar_le_98
    by simp
qed

theorem bar_monotone_witness:
  "(0::nat) < length [5, 2, 9 :: nat] \<and> 2 < length [5, 2, 9 :: nat] \<and>
   0 < [5, 2, 9 :: nat] ! 0 \<and> [5, 2, 9 :: nat] ! 0 \<le> [5, 2, 9] ! 2 \<and>
   bar 10 5 \<le> bar 10 9 \<and> 0 \<le> bar 10 5 \<and> bar 10 9 \<le> 98"
  using bar_monotone[of 0 "[5, 2, 9]" 2] by simp

text \<open>
  C7, as the program has it. The picture is 100 columns wide and has one row per bin.
  In the row of bin \<open>x\<close>, each channel colours two columns only: the whole part of the
  length computed for the bin and the column after it. Where channels meet, blue is over
  green and green over red. Every other pixel is white.
\<close>

theorem picture_marks:
  assumes "p < 100" and "x < 256"
  shows "picture_pixel img p x =
           Some (if marked (histogram img) 2 x p then 0x0000ff
                 else if marked (histogram img) 1 x p then 0x00ff00
                 else if marked (histogram img) 0 x p then 0xff0000
                 else Qt_white)
       \<and> (\<forall>c. marked (histogram img) c x p \<longleftrightarrow>
              int p = \<lfloor>bar_length (histogram img) c x\<rfloor> \<or>
              int p = \<lfloor>bar_length (histogram img) c x\<rfloor> + 1)"
proof -
  have "\<And>c. 0 \<le> bar_length (histogram img) c x"
    by (simp add: bar_length_def bar_nonneg)
  then have "\<And>c. marked (histogram img) c x p \<longleftrightarrow>
              int p = \<lfloor>bar_length (histogram img) c x\<rfloor> \<or>
              int p = \<lfloor>bar_length (histogram img) c x\<rfloor> + 1"
    by (auto simp: marked_def to_int_nonneg)
  moreover have "picture_pixel img p x =
           Some (if marked (histogram img) 2 x p then 0x0000ff
                 else if marked (histogram img) 1 x p then 0x00ff00
                 else if marked (histogram img) 0 x p then 0xff0000
                 else Qt_white)"
    using histogram_image_pixel[OF length_histogram assms, of img]
    by (auto simp: picture_pixel_def)
  ultimately show ?thesis by blast
qed

theorem picture_marks_witness:
  "(98::nat) < 100 \<and> (0::nat) < 256 \<and> picture_pixel dark_frame 98 0 = Some 0x0000ff"
proof -
  have "marked (histogram dark_frame) 2 0 98"
    using dark_band[of 2] by (simp add: marked_def to_int_def)
  then show ?thesis
    using picture_marks[of 98 0 dark_frame] by simp
qed

text \<open>
  C7, as the claim has it, says that every column from the start of the row to the
  computed length has the channel's colour. For the frame of one black pixel the length
  computed for bin 0 of the blue channel is 98, and the first column of that row is
  white, not blue.
\<close>

theorem bar_is_not_filled:
  "bar_length (histogram dark_frame) 2 0 = 98 \<and>
   picture_pixel dark_frame 0 0 = Some Qt_white \<and> Qt_white \<noteq> 0x0000ff"
proof -
  have "\<not> marked (histogram dark_frame) c 0 0" if "c < 3" for c
    using dark_band[OF that] by (simp add: marked_def to_int_def)
  then have "\<not> marked (histogram dark_frame) 0 0 0" "\<not> marked (histogram dark_frame) 1 0 0"
    "\<not> marked (histogram dark_frame) 2 0 0"
    by simp_all
  moreover have "picture_pixel dark_frame 0 0 =
           Some (if marked (histogram dark_frame) 2 0 0 then 0x0000ff
                 else if marked (histogram dark_frame) 1 0 0 then 0x00ff00
                 else if marked (histogram dark_frame) 0 0 0 then 0xff0000
                 else Qt_white)"
    using histogram_image_pixel[OF length_histogram, of 0 0 dark_frame]
    by (auto simp: picture_pixel_def)
  ultimately show ?thesis
    using dark_band[of 2] by (simp add: Qt_white_def)
qed

subsection \<open>The focus measurement\<close>

text \<open>The two difference images, pixel by pixel.\<close>

lemma getpixel_new_image: "x < w \<Longrightarrow> y < h \<Longrightarrow> getpixel (new_image w h f) x y = f x y"
  by (simp add: getpixel_def new_image_def)

lemma new_image_size [simp]: "width (new_image w h f) = w" "height (new_image w h f) = h"
  by (simp_all add: new_image_def)

lemma new_image_cong:
  assumes "\<And>x y. x < w \<Longrightarrow> y < h \<Longrightarrow> f x y = g x y"
  shows "new_image w h f = new_image w h g"
  using assms by (simp add: new_image_def)

lemma offset_size [simp]:
  "width (offset img a b) = width img" "height (offset img a b) = height img"
  by (simp_all add: offset_def)

lemma difference_size [simp]:
  "width (difference im1 im2) = min (width im1) (width im2)"
  "height (difference im1 im2) = min (height im1) (height im2)"
  by (simp_all add: difference_def)

lemma band_pixel_difference:
  "band c (pixel_difference p q) = absdiff (band c p) (band c q)"
  by (cases p; cases q) simp

lemma shifted_left:
  "crop (difference img (offset img 1 0)) (1, 0, width img, height img) =
     new_image (width img - 1) (height img)
       (\<lambda>x y. pixel_difference (getpixel img (x + 1) y) (getpixel img x y))"
proof -
  let ?w = "width img" and ?h = "height img"
  have "getpixel (difference img (offset img 1 0)) (x + 1) (y + 0) =
          pixel_difference (getpixel img (x + 1) y) (getpixel img x y)"
    if "x < ?w - 1" "y < ?h" for x y
  proof -
    have x: "x + 1 < ?w" using that by arith
    have "nat ((int (x + 1) - 1) mod int ?w) = x" using x by simp
    moreover have "nat ((int y - 0) mod int ?h) = y" using that by simp
    ultimately have "getpixel (offset img 1 0) (x + 1) y = getpixel img x y"
      using x that by (simp add: offset_def getpixel_new_image)
    then show ?thesis
      using x that by (simp add: difference_def getpixel_new_image)
  qed
  then show ?thesis
    unfolding crop_def by (auto intro!: new_image_cong)
qed

lemma shifted_up:
  "crop (difference img (offset img 0 1)) (0, 1, width img, height img) =
     new_image (width img) (height img - 1)
       (\<lambda>x y. pixel_difference (getpixel img x (y + 1)) (getpixel img x y))"
proof -
  let ?w = "width img" and ?h = "height img"
  have "getpixel (difference img (offset img 0 1)) (x + 0) (y + 1) =
          pixel_difference (getpixel img x (y + 1)) (getpixel img x y)"
    if "x < ?w" "y < ?h - 1" for x y
  proof -
    have y: "y + 1 < ?h" using that by arith
    have "nat ((int (y + 1) - 1) mod int ?h) = y" using y by simp
    moreover have "nat ((int x - 0) mod int ?w) = x" using that by simp
    ultimately have "getpixel (offset img 0 1) x (y + 1) = getpixel img x y"
      using y that by (simp add: offset_def getpixel_new_image)
    then show ?thesis
      using y that by (simp add: difference_def getpixel_new_image)
  qed
  then show ?thesis
    unfolding crop_def by (auto intro!: new_image_cong)
qed

text \<open>What the statistics make of a histogram: sums over the pixels.\<close>

lemma sum_list_delta:
  fixes g :: "nat \<Rightarrow> 'a::semiring_1"
  assumes "a < n"
  shows "(\<Sum>v\<leftarrow>[0..<n]. g v * of_nat (if a = v then 1 else 0)) = g a"
proof -
  have "(\<Sum>v\<leftarrow>[0..<n]. g v * of_nat (if a = v then 1 else 0)) =
        (\<Sum>v\<in>{0..<n}. if v = a then g v else 0)"
    unfolding interv_sum_list_conv_sum_set_nat
    by (intro sum.cong) auto
  also have "\<dots> = g a" using assms by (simp add: sum.delta)
  finally show ?thesis .
qed

lemma sum_over_bins:
  fixes g :: "nat \<Rightarrow> 'a::semiring_1"
  assumes "\<forall>p\<in>set ps. k p < n"
  shows "(\<Sum>v\<leftarrow>[0..<n]. g v * of_nat (length (filter (\<lambda>p. k p = v) ps))) = (\<Sum>p\<leftarrow>ps. g (k p))"
  using assms
proof (induction ps)
  case Nil
  then show ?case by simp
next
  case (Cons p ps)
  have "(\<Sum>v\<leftarrow>[0..<n]. g v * of_nat (length (filter (\<lambda>p. k p = v) (p # ps)))) =
        (\<Sum>v\<leftarrow>[0..<n]. g v * of_nat (if k p = v then 1 else 0)
                        + g v * of_nat (length (filter (\<lambda>p. k p = v) ps)))"
    by (intro arg_cong[where f = sum_list] map_cong) (auto simp: distrib_left)
  also have "\<dots> = (\<Sum>v\<leftarrow>[0..<n]. g v * of_nat (if k p = v then 1 else 0))
                  + (\<Sum>v\<leftarrow>[0..<n]. g v * of_nat (length (filter (\<lambda>p. k p = v) ps)))"
    by (rule sum_list_addf)
  also have "\<dots> = g (k p) + (\<Sum>p\<leftarrow>ps. g (k p))"
    using Cons sum_list_delta[of "k p" n g] by simp
  finally show ?case by simp
qed

lemma band_hist_histogram:
  assumes "c < 3"
  shows "band_hist (histogram img) c =
           map (\<lambda>v. length (filter (\<lambda>p. band c p = v) (concat (raster img)))) [0..<256]"
  using assms by (intro nth_equalityI) (simp_all add: length_band_hist band_hist_nth)

lemma stat_count_histogram:
  assumes "c < 3" and "\<forall>p\<in>set (concat (raster img)). band c p < 256"
  shows "stat_count (histogram img) c = length (concat (raster img))"
proof -
  have "stat_count (histogram img) c = sum_list (band_hist (histogram img) c)"
    by (simp add: stat_count_def band_hist_def)
  also have "\<dots> = (\<Sum>v\<leftarrow>[0..<256]. 1 * of_nat (length (filter (\<lambda>p. band c p = v) (concat (raster img)))))"
    by (simp add: band_hist_histogram[OF assms(1)])
  also have "\<dots> = (\<Sum>p\<leftarrow>concat (raster img). 1)"
    using sum_over_bins[OF assms(2), of "\<lambda>v. 1::nat"] by simp
  also have "\<dots> = length (concat (raster img))"
    by (simp add: sum_list_triv)
  finally show ?thesis .
qed

lemma stat_sum2_histogram:
  assumes "c < 3" and "\<forall>p\<in>set (concat (raster img)). band c p < 256"
  shows "stat_sum2 (histogram img) c = (\<Sum>p\<leftarrow>concat (raster img). (real (band c p))\<^sup>2)"
proof -
  have "stat_sum2 (histogram img) c =
          (\<Sum>j\<leftarrow>[0..<256]. real (j ^ 2) * real (length (filter (\<lambda>p. band c p = j) (concat (raster img)))))"
    unfolding stat_sum2_def
    by (intro arg_cong[where f = sum_list] map_cong refl)
       (simp add: histogram_nth[OF assms(1)])
  also have "\<dots> = (\<Sum>p\<leftarrow>concat (raster img). real ((band c p) ^ 2))"
    using sum_over_bins[OF assms(2), of "\<lambda>j. real (j ^ 2)"] by simp
  finally show ?thesis by simp
qed

lemma stat_bands_histogram: "stat_bands (histogram img) = [0, 1, 2]"
  by (simp add: stat_bands_def length_histogram upt_3)

lemma stat_rms_histogram:
  assumes "\<forall>p\<in>set (concat (raster img)). \<forall>c<3. band c p < 256"
  shows "stat_rms (histogram img) =
           (if concat (raster img) = [] then Inl ZeroDivisionError
            else Inr (map (\<lambda>c. sqrt ((\<Sum>p\<leftarrow>concat (raster img). (real (band c p))\<^sup>2)
                                      / real (length (concat (raster img))))) [0, 1, 2]))"
proof -
  have c: "stat_count (histogram img) c = length (concat (raster img))" if "c < 3" for c
    using that assms by (intro stat_count_histogram) auto
  have s: "stat_sum2 (histogram img) c = (\<Sum>p\<leftarrow>concat (raster img). (real (band c p))\<^sup>2)"
    if "c < 3" for c
    using that assms by (intro stat_sum2_histogram) auto
  show ?thesis
    unfolding stat_rms_def stat_bands_histogram
    using c[of 0] c[of 1] c[of 2] s[of 0] s[of 1] s[of 2] by simp
qed

lemma sum_list_concat_map:
  fixes G :: "'a \<Rightarrow> real"
  shows "(\<Sum>p\<leftarrow>concat xss. G p) = (\<Sum>xs\<leftarrow>xss. \<Sum>p\<leftarrow>xs. G p)"
  by (induction xss) simp_all

lemma sum_new_image:
  fixes G :: "pixel \<Rightarrow> real"
  shows "(\<Sum>p\<leftarrow>concat (raster (new_image w h f)). G p) = (\<Sum>y\<leftarrow>[0..<h]. \<Sum>x\<leftarrow>[0..<w]. G (f x y))"
  by (simp add: new_image_def sum_list_concat_map comp_def)

lemma length_new_image: "length (concat (raster (new_image w h f))) = w * h"
  by (simp add: new_image_def length_concat comp_def sum_list_triv)

lemma set_new_image:
  assumes "p \<in> set (concat (raster (new_image w h f)))"
  obtains x y where "x < w" "y < h" "p = f x y"
  using assms by (auto simp: new_image_def)

lemma absdiff_less: "a < n \<Longrightarrow> b < n \<Longrightarrow> absdiff a b < n"
  by (auto simp: absdiff_def)

lemma valid_rgb_band:
  assumes "valid_rgb img" and "x < width img" and "y < height img"
  shows "band c (getpixel img x y) < 256"
proof -
  have "raster img ! y \<in> set (raster img)" using assms by (simp add: valid_rgb_def)
  then have row: "length (raster img ! y) = width img"
    and all: "\<forall>p\<in>set (raster img ! y). case p of (r, g, b) \<Rightarrow> r < 256 \<and> g < 256 \<and> b < 256"
    using assms(1) by (auto simp: valid_rgb_def list_all_iff)
  have "getpixel img x y \<in> set (raster img ! y)"
    using row assms(2) by (simp add: getpixel_def)
  then show ?thesis using all by (cases "getpixel img x y") auto
qed

lemma shift_index:
  fixes g :: "nat \<Rightarrow> real"
  shows "(\<Sum>x\<leftarrow>[1..<n]. g x) = (\<Sum>x\<leftarrow>[0..<n - 1]. g (x + 1))"
proof (cases n)
  case 0
  then show ?thesis by simp
next
  case (Suc m)
  have "[1..<Suc m] = map Suc [0..<m]" by (simp add: map_Suc_upt)
  then show ?thesis using Suc by (simp add: comp_def)
qed

lemma rms_of_differences:
  assumes "\<And>x y c. x < w \<Longrightarrow> y < h \<Longrightarrow> band c (f x y) < 256"
  shows "stat_rms (histogram (new_image w h f)) =
           (if w * h = 0 then Inl ZeroDivisionError
            else Inr (map (\<lambda>c. sqrt ((\<Sum>y\<leftarrow>[0..<h]. \<Sum>x\<leftarrow>[0..<w]. (real (band c (f x y)))\<^sup>2)
                                      / real (w * h))) [0, 1, 2]))"
proof -
  have "\<forall>p\<in>set (concat (raster (new_image w h f))). \<forall>c<3. band c p < 256"
  proof (intro ballI allI impI)
    fix p c assume "p \<in> set (concat (raster (new_image w h f)))"
    then obtain x y where "x < w" "y < h" "p = f x y" by (rule set_new_image)
    then show "band c p < 256" using assms by simp
  qed
  note r = stat_rms_histogram[OF this]
  have e: "(concat (raster (new_image w h f)) = []) = (w * h = 0)"
    unfolding length_new_image[symmetric, of w h f] by (simp only: length_0_conv)
  show ?thesis
    unfolding r e sum_new_image length_new_image ..
qed

lemma horizontal_rms:
  assumes "valid_rgb img"
  shows "stat_rms (histogram (crop (difference img (offset img 1 0))
                                   (1, 0, width img, height img))) =
           (if (width img - 1) * height img = 0 then Inl ZeroDivisionError
            else Inr (map (rms_horizontal img) [0, 1, 2]))"
proof -
  let ?w = "width img" and ?h = "height img"
  let ?f = "\<lambda>x y. pixel_difference (getpixel img (x + 1) y) (getpixel img x y)"
  have bound: "band c (?f x y) < 256" if "x < ?w - 1" "y < ?h" for x y c
  proof -
    have "x + 1 < ?w" "x < ?w" using that by arith+
    then show ?thesis
      using that assms by (simp add: band_pixel_difference absdiff_less valid_rgb_band)
  qed
  have "(\<Sum>y\<leftarrow>[0..<?h]. \<Sum>x\<leftarrow>[1..<?w].
           (real (absdiff (band c (getpixel img x y)) (band c (getpixel img (x - 1) y))))\<^sup>2) =
        (\<Sum>y\<leftarrow>[0..<?h]. \<Sum>x\<leftarrow>[0..<?w - 1].
           (real (absdiff (band c (getpixel img (x + 1) y)) (band c (getpixel img (x + 1 - 1) y))))\<^sup>2)"
    for c
    by (simp only: shift_index)
  then have "(\<Sum>y\<leftarrow>[0..<?h]. \<Sum>x\<leftarrow>[0..<?w - 1]. (real (band c (?f x y)))\<^sup>2) =
        (\<Sum>y\<leftarrow>[0..<?h]. \<Sum>x\<leftarrow>[1..<?w].
           (real (absdiff (band c (getpixel img x y)) (band c (getpixel img (x - 1) y))))\<^sup>2)"
    for c
    by (simp add: band_pixel_difference)
  then have "(\<lambda>c. sqrt ((\<Sum>y\<leftarrow>[0..<?h]. \<Sum>x\<leftarrow>[0..<?w - 1]. (real (band c (?f x y)))\<^sup>2)
                   / real ((?w - 1) * ?h))) = rms_horizontal img"
    unfolding rms_horizontal_def by (intro ext) (simp only:)
  then have e: "map (\<lambda>c. sqrt ((\<Sum>y\<leftarrow>[0..<?h]. \<Sum>x\<leftarrow>[0..<?w - 1]. (real (band c (?f x y)))\<^sup>2)
                   / real ((?w - 1) * ?h))) [0, 1, 2] = map (rms_horizontal img) [0, 1, 2]"
    by (rule arg_cong)
  have "stat_rms (histogram (new_image (?w - 1) ?h ?f)) =
          (if (?w - 1) * ?h = 0 then Inl ZeroDivisionError
           else Inr (map (\<lambda>c. sqrt ((\<Sum>y\<leftarrow>[0..<?h]. \<Sum>x\<leftarrow>[0..<?w - 1]. (real (band c (?f x y)))\<^sup>2)
                   / real ((?w - 1) * ?h))) [0, 1, 2]))"
    by (rule rms_of_differences) (rule bound)
  then show ?thesis
    unfolding shifted_left e .
qed

lemma vertical_rms:
  assumes "valid_rgb img"
  shows "stat_rms (histogram (crop (difference img (offset img 0 1))
                                   (0, 1, width img, height img))) =
           (if width img * (height img - 1) = 0 then Inl ZeroDivisionError
            else Inr (map (rms_vertical img) [0, 1, 2]))"
proof -
  let ?w = "width img" and ?h = "height img"
  let ?f = "\<lambda>x y. pixel_difference (getpixel img x (y + 1)) (getpixel img x y)"
  have bound: "band c (?f x y) < 256" if "x < ?w" "y < ?h - 1" for x y c
  proof -
    have "y + 1 < ?h" "y < ?h" using that by arith+
    then show ?thesis
      using that assms by (simp add: band_pixel_difference absdiff_less valid_rgb_band)
  qed
  have "(\<Sum>y\<leftarrow>[1..<?h]. \<Sum>x\<leftarrow>[0..<?w].
           (real (absdiff (band c (getpixel img x y)) (band c (getpixel img x (y - 1)))))\<^sup>2) =
        (\<Sum>y\<leftarrow>[0..<?h - 1]. \<Sum>x\<leftarrow>[0..<?w].
           (real (absdiff (band c (getpixel img x (y + 1))) (band c (getpixel img x (y + 1 - 1)))))\<^sup>2)"
    for c
    by (simp only: shift_index)
  then have "(\<Sum>y\<leftarrow>[0..<?h - 1]. \<Sum>x\<leftarrow>[0..<?w]. (real (band c (?f x y)))\<^sup>2) =
        (\<Sum>y\<leftarrow>[1..<?h]. \<Sum>x\<leftarrow>[0..<?w].
           (real (absdiff (band c (getpixel img x y)) (band c (getpixel img x (y - 1)))))\<^sup>2)"
    for c
    by (simp add: band_pixel_difference)
  then have "(\<lambda>c. sqrt ((\<Sum>y\<leftarrow>[0..<?h - 1]. \<Sum>x\<leftarrow>[0..<?w]. (real (band c (?f x y)))\<^sup>2)
                   / real (?w * (?h - 1)))) = rms_vertical img"
    unfolding rms_vertical_def by (intro ext) (simp only:)
  then have e: "map (\<lambda>c. sqrt ((\<Sum>y\<leftarrow>[0..<?h - 1]. \<Sum>x\<leftarrow>[0..<?w]. (real (band c (?f x y)))\<^sup>2)
                   / real (?w * (?h - 1)))) [0, 1, 2] = map (rms_vertical img) [0, 1, 2]"
    by (rule arg_cong)
  have "stat_rms (histogram (new_image ?w (?h - 1) ?f)) =
          (if ?w * (?h - 1) = 0 then Inl ZeroDivisionError
           else Inr (map (\<lambda>c. sqrt ((\<Sum>y\<leftarrow>[0..<?h - 1]. \<Sum>x\<leftarrow>[0..<?w]. (real (band c (?f x y)))\<^sup>2)
                   / real (?w * (?h - 1)))) [0, 1, 2]))"
    by (rule rms_of_differences) (rule bound)
  then show ?thesis
    unfolding shifted_up e .
qed

lemma measure_focus_eq:
  assumes "valid_rgb img"
  shows "measure_focus img =
           (if 2 \<le> width img \<and> 2 \<le> height img then Inr (focus_score img)
            else Inl ZeroDivisionError)"
proof -
  let ?H = "stat_rms (histogram (crop (difference img (offset img 1 0))
                                      (1, 0, width img, height img)))"
  let ?V = "stat_rms (histogram (crop (difference img (offset img 0 1))
                                      (0, 1, width img, height img)))"
  have m: "measure_focus img =
             (case ?H of Inl e \<Rightarrow> Inl e
              | Inr h_rms \<Rightarrow>
                  (case ?V of Inl e \<Rightarrow> Inl e
                   | Inr rms \<Rightarrow>
                       if length h_rms < length rms then Inl IndexError
                       else Inr (map (\<lambda>n. rms ! n + h_rms ! n) [0..<length rms])))"
    unfolding measure_focus_def Let_def ..
  have c: "map (\<lambda>n. map (rms_vertical img) [0, 1, 2] ! n + map (rms_horizontal img) [0, 1, 2] ! n)
             [0..<length (map (rms_vertical img) [0, 1, 2])] = focus_score img"
    by (simp add: focus_score_def upt_3)
  consider "width img < 2 \<or> height img = 0" | "2 \<le> width img" "height img = 1"
    | "2 \<le> width img" "2 \<le> height img"
    by arith
  then show ?thesis
  proof cases
    case 1
    then have "(width img - 1) * height img = 0" by auto
    then have "?H = Inl ZeroDivisionError" using horizontal_rms[OF assms] by simp
    then show ?thesis unfolding m using 1 by auto
  next
    case 2
    then have "(width img - 1) * height img \<noteq> 0" "width img * (height img - 1) = 0" by auto
    then have "?H = Inr (map (rms_horizontal img) [0, 1, 2])" "?V = Inl ZeroDivisionError"
      using horizontal_rms[OF assms] vertical_rms[OF assms] by simp_all
    then show ?thesis unfolding m using 2 by simp
  next
    case 3
    then have "(width img - 1) * height img \<noteq> 0" "width img * (height img - 1) \<noteq> 0" by auto
    then have "?H = Inr (map (rms_horizontal img) [0, 1, 2])"
      "?V = Inr (map (rms_vertical img) [0, 1, 2])"
      using horizontal_rms[OF assms] vertical_rms[OF assms] by simp_all
    then show ?thesis unfolding m using 3 c by simp
  qed
qed

lemma upt_2: "[0..<2] = [0, 1]" "[Suc 0..<2] = [1]"
  by (simp_all add: upt_rec)

lemma sqrt_16: "sqrt 16 = 4" "sqrt 25 = 5"
  by (simp_all add: real_sqrt_unique)

lemma striped_focus: "focus_score striped_frame = [0, 4, 5]"
  by (simp add: focus_score_def rms_horizontal_def rms_vertical_def striped_frame_def upt_2
      getpixel_def absdiff_def sqrt_16)

text \<open>
  C1. For a frame that was captured and decoded into valid RGB data, the focus
  measurement is, channel by channel, the root mean square of the absolute differences
  between horizontally adjacent pixels plus the root mean square of the absolute
  differences between vertically adjacent pixels, the pixels without a left (upper)
  neighbour being left out; it is a list of three numbers, and it is what \<open>new_focus\<close>
  carries. A frame less than two pixels wide or high has no such pairs: the division by
  their number raises, and \<open>new_focus\<close> is not emitted.
\<close>

theorem focus_is_rms_of_differences:
  assumes "GP_OK \<le> fst (preview E (shots s))"
    and "decode E (snd (preview E (shots s))) = Some img"
    and "valid_rgb img"
  shows "measure_focus img =
           (if 2 \<le> width img \<and> 2 \<le> height img then Inr (focus_score img)
            else Inl ZeroDivisionError)
       \<and> (\<exists>q clipping.
             trace (snd (do_capture E s)) =
               trace s @ [CapturePreview, NewImage (tobytes img) (width img) (height img),
                          NewHistogram q, NewClipping clipping]
                       @ (if 2 \<le> width img \<and> 2 \<le> height img
                          then [NewFocus (focus_score img)] else []))
       \<and> focus_score img =
           [rms_horizontal img 0 + rms_vertical img 0,
            rms_horizontal img 1 + rms_vertical img 1,
            rms_horizontal img 2 + rms_vertical img 2]"
proof -
  obtain q clipping where q: "histogram_image (histogram img) = Inr (q, clipping)"
    using histogram_image_768[OF length_histogram] by blast
  have "trace (snd (do_capture E s)) =
               trace s @ [CapturePreview, NewImage (tobytes img) (width img) (height img),
                          NewHistogram q, NewClipping clipping]
                       @ (if 2 \<le> width img \<and> 2 \<le> height img
                          then [NewFocus (focus_score img)] else [])"
    unfolding do_capture_ok[OF assms(1,2) q] measure_focus_eq[OF assms(3)] by simp
  then show ?thesis
    using measure_focus_eq[OF assms(3)] by (auto simp: focus_score_def)
qed

theorem focus_is_rms_of_differences_witness:
  "GP_OK \<le> fst (preview (still_camera striped_frame) (shots (idle bare_config))) \<and>
   decode (still_camera striped_frame)
     (snd (preview (still_camera striped_frame) (shots (idle bare_config)))) = Some striped_frame \<and>
   valid_rgb striped_frame \<and>
   measure_focus striped_frame = Inr [0, 4, 5] \<and>
   (\<exists>q clipping.
      trace (snd (do_capture (still_camera striped_frame) (idle bare_config))) =
        [CapturePreview, NewImage (tobytes striped_frame) 2 2, NewHistogram q,
         NewClipping clipping, NewFocus [0, 4, 5]])"
proof -
  have a: "GP_OK \<le> fst (preview (still_camera striped_frame) (shots (idle bare_config)))"
    by (simp add: still_camera_def)
  have b: "decode (still_camera striped_frame)
     (snd (preview (still_camera striped_frame) (shots (idle bare_config)))) = Some striped_frame"
    by (simp add: still_camera_def)
  have c: "valid_rgb striped_frame"
    by (simp add: valid_rgb_def striped_frame_def)
  have d: "trace (idle bare_config) = []" "width striped_frame = 2" "height striped_frame = 2"
    by (simp_all add: idle_def striped_frame_def)
  show ?thesis
    using a b c focus_is_rms_of_differences[OF a b c] unfolding d striped_focus by simp
qed

end
